theory Spec2Isabelle
  imports
    Main
    "HOL-Library.Word"
    "HOL-Library.AList"
    "HOL-Library.List_Lexorder"
    "HOL-Library.Product_Lexorder"
begin

section \<open>Data model of \<^verbatim>\<open>scripts/extract-wad.py\<close>\<close>

text \<open>
  Python \<^verbatim>\<open>bytes\<close> are lists of 8-bit words. A Python \<^verbatim>\<open>str\<close> is the list of its code
  points (a byte that is not ASCII decodes to U+FFFD, which is no 8-bit character), compared
  lexicographically as Python compares strings. Python integers are unbounded: sizes and
  offsets are \<^typ>\<open>nat\<close>, the record type of a lump is an \<^typ>\<open>int\<close>.

  A \<^verbatim>\<open>dict\<close> is an association list with distinct keys in insertion order; assigning
  to a key that is present replaces its value in place (\<^const>\<open>AList.update\<close>), as Python
  does.
\<close>

type_synonym byte = "8 word"
type_synonym bytes = "byte list"
type_synonym pystr = "nat list"
type_synonym rgba = "byte \<times> byte \<times> byte \<times> byte"

datatype error =
    ValueError
  | StructError
  | IndexError
  | SaveError
  | SystemExit nat

text \<open>The literal of a \<^verbatim>\<open>bytes\<close> or \<^verbatim>\<open>str\<close> object written in the source.\<close>

definition bytes_of :: "string \<Rightarrow> bytes" where
  "bytes_of s = map (\<lambda>c. of_nat (of_char c)) s"

definition str_of :: "string \<Rightarrow> pystr" where
  "str_of s = map of_char s"

text \<open>\<^verbatim>\<open>data[a:b]\<close> for \<open>0 \<le> a\<close> and \<open>0 \<le> b\<close>: the slice is cut at the end of the data.\<close>

definition py_slice :: "'a list \<Rightarrow> nat \<Rightarrow> nat \<Rightarrow> 'a list" where
  "py_slice xs a b = take (b - a) (drop a xs)"

subsection \<open>The \<^verbatim>\<open>struct\<close> formats the script uses\<close>

text \<open>A little-endian unsigned integer.\<close>

fun le_uint :: "bytes \<Rightarrow> nat" where
  "le_uint [] = 0"
| "le_uint (b # bs) = unat b + 256 * le_uint bs"

text \<open>\<^verbatim>\<open>struct.unpack("<II", buf)\<close>: the buffer must have exactly 8 bytes.\<close>

definition unpack_II :: "bytes \<Rightarrow> error + (nat \<times> nat)" where
  "unpack_II buf =
     (if length buf \<noteq> 8 then Inl StructError
      else Inr (le_uint (py_slice buf 0 4), le_uint (py_slice buf 4 8)))"

text \<open>\<^verbatim>\<open>struct.unpack_from("<II", data, off)\<close>: at least 8 bytes from \<open>off\<close> on.\<close>

definition unpack_from_II :: "bytes \<Rightarrow> nat \<Rightarrow> error + (nat \<times> nat)" where
  "unpack_from_II data off =
     (if length data < off + 8 then Inl StructError
      else unpack_II (py_slice data off (off + 8)))"

text \<open>
  \<^verbatim>\<open>struct.unpack_from("<IIIBb", data, off)\<close>: 14 bytes without padding; \<^verbatim>\<open>B\<close> is an
  unsigned char, \<^verbatim>\<open>b\<close> a signed char.
\<close>

definition unpack_from_IIIBb :: "bytes \<Rightarrow> nat \<Rightarrow> error + (nat \<times> nat \<times> nat \<times> int \<times> int)" where
  "unpack_from_IIIBb data off =
     (if length data < off + 14 then Inl StructError
      else Inr (le_uint (py_slice data off (off + 4)),
                le_uint (py_slice data (off + 4) (off + 8)),
                le_uint (py_slice data (off + 8) (off + 12)),
                uint (data ! (off + 12)),
                sint (data ! (off + 13))))"

subsection \<open>Names\<close>

text \<open>\<^verbatim>\<open>name_raw.split(b"\x00", 1)[0]\<close>: the bytes before the first NUL.\<close>

definition split_nul :: "bytes \<Rightarrow> bytes" where
  "split_nul bs = takeWhile (\<lambda>b. b \<noteq> 0) bs"

text \<open>\<^verbatim>\<open>.decode("ascii", errors="replace")\<close>: every byte above 127 becomes U+FFFD.\<close>

definition decode_ascii :: "bytes \<Rightarrow> pystr" where
  "decode_ascii bs = map (\<lambda>b. if unat b < 128 then unat b else 65533) bs"

text \<open>\<^verbatim>\<open>.lower()\<close> on a decoded name: only A to Z have a lowercase form there.\<close>

definition lower :: "pystr \<Rightarrow> pystr" where
  "lower s = map (\<lambda>c. if 65 \<le> c \<and> c \<le> 90 then c + 32 else c) s"

subsection \<open>A binary file with a read position\<close>

record pyfile =
  content :: bytes
  pos :: nat

definition f_open :: "bytes \<Rightarrow> pyfile" where
  "f_open bs = \<lparr>content = bs, pos = 0\<rparr>"

definition f_read :: "nat \<Rightarrow> pyfile \<Rightarrow> bytes \<times> pyfile" where
  "f_read n f =
     (let bs = take n (drop (pos f) (content f))
      in (bs, f\<lparr>pos := pos f + length bs\<rparr>))"

definition f_seek :: "nat \<Rightarrow> pyfile \<Rightarrow> pyfile" where
  "f_seek p f = f\<lparr>pos := p\<rparr>"

definition f_tell :: "pyfile \<Rightarrow> nat" where
  "f_tell f = pos f"

section \<open>\<^verbatim>\<open>read_pak\<close>\<close>

type_synonym pak_entries = "(pystr \<times> bytes) list"

text \<open>The body of \<^verbatim>\<open>for _ in range(num_entries)\<close>, with the iterations still to run.\<close>

fun read_pak_loop :: "nat \<Rightarrow> pyfile \<Rightarrow> pak_entries \<Rightarrow> error + pak_entries" where
  "read_pak_loop 0 f entries = Inr entries"
| "read_pak_loop (Suc n) f entries =
     (case f_read 56 f of (name_raw, f1) \<Rightarrow>
      case f_read 8 f1 of (buf, f2) \<Rightarrow>
      case unpack_II buf of
        Inl e \<Rightarrow> Inl e
      | Inr (offset, size') \<Rightarrow>
          (let name = decode_ascii (split_nul name_raw);
               p = f_tell f2;
               f3 = f_seek offset f2
           in case f_read size' f3 of (payload, f4) \<Rightarrow>
                read_pak_loop n (f_seek p f4) (AList.update (lower name) payload entries)))"

definition read_pak :: "bytes \<Rightarrow> error + pak_entries" where
  "read_pak pak =
     (case f_read 4 (f_open pak) of (magic, f1) \<Rightarrow>
      if magic \<noteq> bytes_of ''PACK'' then Inl ValueError
      else case f_read 8 f1 of (buf, f2) \<Rightarrow>
           case unpack_II buf of
             Inl e \<Rightarrow> Inl e
           | Inr (dir_offset, dir_size) \<Rightarrow>
               read_pak_loop (dir_size div 64) (f_seek dir_offset f2) [])"

section \<open>\<^verbatim>\<open>read_palette\<close>\<close>

text \<open>
  The body of \<^verbatim>\<open>for i in range(256)\<close>: unpacking \<^verbatim>\<open>r, g, b = data[i*3 : i*3+3]\<close> raises
  ValueError unless the slice has three bytes.
\<close>

fun read_palette_loop :: "bytes \<Rightarrow> nat list \<Rightarrow> rgba list \<Rightarrow> error + rgba list" where
  "read_palette_loop data [] palette = Inr palette"
| "read_palette_loop data (i # is) palette =
     (case py_slice data (i * 3) (i * 3 + 3) of
        [r, g, b] \<Rightarrow>
          (let a = (if i = 255 then 0 else 255)
           in read_palette_loop data is (palette @ [(r, g, b, a)]))
      | _ \<Rightarrow> Inl ValueError)"

definition read_palette :: "bytes \<Rightarrow> error + rgba list" where
  "read_palette data =
     (if length data < 768 then Inl ValueError
      else read_palette_loop data [0..<256] [])"

section \<open>\<^verbatim>\<open>read_wad\<close>\<close>

type_synonym lumps = "(pystr \<times> (int \<times> bytes)) list"

fun read_wad_loop :: "bytes \<Rightarrow> nat \<Rightarrow> nat list \<Rightarrow> lumps \<Rightarrow> error + lumps" where
  "read_wad_loop data dir_offset [] lumps = Inr lumps"
| "read_wad_loop data dir_offset (i # is) lumps =
     (let entry_offset = dir_offset + i * 32
      in case unpack_from_IIIBb data entry_offset of
           Inl e \<Rightarrow> Inl e
         | Inr (lump_offset, disk_size, full_size, lump_type, compression) \<Rightarrow>
             (let name_raw = py_slice data (entry_offset + 16) (entry_offset + 32);
                  name = lower (decode_ascii (split_nul name_raw));
                  lump_data = py_slice data lump_offset (lump_offset + disk_size)
              in read_wad_loop data dir_offset is
                   (AList.update name (lump_type, lump_data) lumps)))"

definition read_wad :: "bytes \<Rightarrow> error + lumps" where
  "read_wad data =
     (let magic = py_slice data 0 4
      in if magic \<noteq> bytes_of ''WAD2'' then Inl ValueError
         else case unpack_from_II data 4 of
                Inl e \<Rightarrow> Inl e
              | Inr (num_lumps, dir_offset) \<Rightarrow>
                  read_wad_loop data dir_offset [0..<num_lumps] [])"

section \<open>\<^verbatim>\<open>qpic_to_image\<close>\<close>

text \<open>
  The raster is Pillow's \<^verbatim>\<open>Image\<close>, which is not part of the repository:
  \<^verbatim>\<open>Image.new("RGBA", (width, height))\<close> followed by \<^verbatim>\<open>putdata\<close> is the record of the two
  dimensions and the row-major pixel list.
\<close>

record image =
  img_width :: nat
  img_height :: nat
  img_data :: "rgba list"

text \<open>\<^verbatim>\<open>palette[b]\<close> for a byte \<open>b\<close>: IndexError beyond the end of the list.\<close>

definition palette_lookup :: "rgba list \<Rightarrow> byte \<Rightarrow> error + rgba" where
  "palette_lookup palette b =
     (if unat b < length palette then Inr (palette ! unat b) else Inl IndexError)"

text \<open>\<^verbatim>\<open>[palette[b] for b in pixels]\<close>: the first failing lookup ends the comprehension.\<close>

fun lookup_all :: "rgba list \<Rightarrow> bytes \<Rightarrow> error + rgba list" where
  "lookup_all palette [] = Inr []"
| "lookup_all palette (b # bs) =
     (case palette_lookup palette b of
        Inl e \<Rightarrow> Inl e
      | Inr c \<Rightarrow>
          (case lookup_all palette bs of
             Inl e \<Rightarrow> Inl e
           | Inr cs \<Rightarrow> Inr (c # cs)))"

definition qpic_to_image :: "bytes \<Rightarrow> rgba list \<Rightarrow> error + image" where
  "qpic_to_image data palette =
     (case unpack_from_II data 0 of
        Inl e \<Rightarrow> Inl e
      | Inr (width, height) \<Rightarrow>
          (let pixels = py_slice data 8 (8 + width * height)
           in if length pixels < width * height then Inl ValueError
              else case lookup_all palette pixels of
                     Inl e \<Rightarrow> Inl e
                   | Inr img_data' \<Rightarrow>
                       Inr \<lparr>img_width = width, img_height = height, img_data = img_data'\<rparr>))"

section \<open>\<^verbatim>\<open>main\<close>\<close>

definition TYP_QPIC :: int where
  "TYP_QPIC = 0x42"

text \<open>
  The lines \<^verbatim>\<open>main\<close> prints, and the state of a run: the files of the output directory
  by name, the two counters and what was printed so far. \<^verbatim>\<open>img.save\<close> is Pillow's; it
  is the parameter \<open>save\<close>, which either fails or gives the bytes of the PNG file, and the file of
  that name then holds exactly these bytes.
\<close>

datatype line =
    Reading
  | PakEntries nat
  | PaletteLoaded
  | WadLumps nat
  | Wrote pystr nat nat pystr
  | Failed pystr error
  | Done nat nat

record run =
  outdir :: "pystr \<rightharpoonup> bytes"
  count :: nat
  skipped :: nat
  out :: "line list"

definition out_path :: "pystr \<Rightarrow> pystr" where
  "out_path name = name @ str_of ''.png''"

text \<open>The body of the loop over the lumps, with its \<^verbatim>\<open>try\<close> and \<^verbatim>\<open>except Exception\<close>.\<close>

definition convert_lump ::
  "(image \<Rightarrow> error + bytes) \<Rightarrow> rgba list \<Rightarrow> pystr \<times> (int \<times> bytes) \<Rightarrow> run \<Rightarrow> run" where
  "convert_lump save palette item s =
     (case item of (name, (lump_type, data)) \<Rightarrow>
        if lump_type \<noteq> TYP_QPIC then s\<lparr>skipped := skipped s + 1\<rparr>
        else case qpic_to_image data palette of
               Inl e \<Rightarrow> s\<lparr>skipped := skipped s + 1, out := out s @ [Failed name e]\<rparr>
             | Inr img \<Rightarrow>
                 (case save img of
                    Inl e \<Rightarrow> s\<lparr>skipped := skipped s + 1, out := out s @ [Failed name e]\<rparr>
                  | Inr png \<Rightarrow>
                      s\<lparr>outdir := (outdir s)(out_path name \<mapsto> png),
                        count := count s + 1,
                        out := out s @
                          [Wrote name (img_width img) (img_height img) (out_path name)]\<rparr>))"

text \<open>\<^verbatim>\<open>for name, (lump_type, data) in sorted(lumps.items())\<close>, from both counters at 0.\<close>

fun convert_loop ::
  "(image \<Rightarrow> error + bytes) \<Rightarrow> rgba list \<Rightarrow> lumps \<Rightarrow> run \<Rightarrow> run" where
  "convert_loop save palette [] s = s"
| "convert_loop save palette (item # items) s =
     convert_loop save palette items (convert_lump save palette item s)"

definition convert_lumps ::
  "(image \<Rightarrow> error + bytes) \<Rightarrow> rgba list \<Rightarrow> lumps \<Rightarrow> run \<Rightarrow> run" where
  "convert_lumps save palette lumps s =
     convert_loop save palette (sort lumps) (s\<lparr>count := 0, skipped := 0\<rparr>)"

text \<open>
  \<^verbatim>\<open>main\<close> from the archive's bytes and the files of the output directory on; the
  command line with its usage message and the creation of the directory are not part of
  the model. \<^verbatim>\<open>sys.exit(1)\<close> and an exception that nothing catches both end the run with
  an error.
\<close>

definition main :: "(image \<Rightarrow> error + bytes) \<Rightarrow> bytes \<Rightarrow> (pystr \<rightharpoonup> bytes) \<Rightarrow> error + run" where
  "main save pak dir =
     (case read_pak pak of
        Inl e \<Rightarrow> Inl e
      | Inr pak_entries \<Rightarrow>
          (case map_of pak_entries (str_of ''gfx/palette.lmp'') of
             None \<Rightarrow> Inl (SystemExit 1)
           | Some palette_data \<Rightarrow>
               (case read_palette palette_data of
                  Inl e \<Rightarrow> Inl e
                | Inr palette \<Rightarrow>
                    (case map_of pak_entries (str_of ''gfx.wad'') of
                       None \<Rightarrow> Inl (SystemExit 1)
                     | Some wad_data \<Rightarrow>
                         (case read_wad wad_data of
                            Inl e \<Rightarrow> Inl e
                          | Inr lumps \<Rightarrow>
                              (let s0 = \<lparr>outdir = dir, count = 0, skipped = 0,
                                         out = [Reading, PakEntries (length pak_entries),
                                                PaletteLoaded, WadLumps (length lumps)]\<rparr>;
                                   s1 = convert_lumps save palette lumps s0
                               in Inr (s1\<lparr>out := out s1 @ [Done (count s1) (skipped s1)]\<rparr>)))))))"

section \<open>The formats, field by field\<close>

text \<open>
  The claims speak of the fields of the two directory formats. The definitions below name
  them by their place in the bytes; the lemmas of the next sections connect them with what
  the readers above compute.
\<close>

subsection \<open>The outer archive\<close>

definition pak_dir_offset :: "bytes \<Rightarrow> nat" where
  "pak_dir_offset pak = le_uint (py_slice pak 4 8)"

definition pak_dir_size :: "bytes \<Rightarrow> nat" where
  "pak_dir_size pak = le_uint (py_slice pak 8 12)"

definition pak_num_entries :: "bytes \<Rightarrow> nat" where
  "pak_num_entries pak = pak_dir_size pak div 64"

text \<open>Where the \<open>i\<close>-th directory record starts.\<close>

definition pak_record :: "bytes \<Rightarrow> nat \<Rightarrow> nat" where
  "pak_record pak i = pak_dir_offset pak + 64 * i"

definition pak_name :: "bytes \<Rightarrow> nat \<Rightarrow> pystr" where
  "pak_name pak i =
     lower (decode_ascii (split_nul (py_slice pak (pak_record pak i) (pak_record pak i + 56))))"

definition pak_offset :: "bytes \<Rightarrow> nat \<Rightarrow> nat" where
  "pak_offset pak i = le_uint (py_slice pak (pak_record pak i + 56) (pak_record pak i + 60))"

definition pak_size :: "bytes \<Rightarrow> nat \<Rightarrow> nat" where
  "pak_size pak i = le_uint (py_slice pak (pak_record pak i + 60) (pak_record pak i + 64))"

definition pak_payload :: "bytes \<Rightarrow> nat \<Rightarrow> bytes" where
  "pak_payload pak i = py_slice pak (pak_offset pak i) (pak_offset pak i + pak_size pak i)"

text \<open>
  A well-formed archive: the magic, the whole header of 12 bytes, and every one of the
  \<open>directory_size div 64\<close> records of 64 bytes inside the file.
\<close>

definition wf_pak :: "bytes \<Rightarrow> bool" where
  "wf_pak pak \<longleftrightarrow>
     py_slice pak 0 4 = bytes_of ''PACK'' \<and> 12 \<le> length pak \<and>
     (\<forall>i<pak_num_entries pak. pak_record pak i + 64 \<le> length pak)"

subsection \<open>The colour table\<close>

definition palette_entry :: "bytes \<Rightarrow> nat \<Rightarrow> rgba" where
  "palette_entry data i =
     (data ! (i * 3), data ! (i * 3 + 1), data ! (i * 3 + 2), if i = 255 then 0 else 255)"

subsection \<open>The nested container\<close>

definition wad_num_lumps :: "bytes \<Rightarrow> nat" where
  "wad_num_lumps data = le_uint (py_slice data 4 8)"

definition wad_dir_offset :: "bytes \<Rightarrow> nat" where
  "wad_dir_offset data = le_uint (py_slice data 8 12)"

definition wad_record :: "bytes \<Rightarrow> nat \<Rightarrow> nat" where
  "wad_record data i = wad_dir_offset data + i * 32"

definition wad_lump_offset :: "bytes \<Rightarrow> nat \<Rightarrow> nat" where
  "wad_lump_offset data i = le_uint (py_slice data (wad_record data i) (wad_record data i + 4))"

definition wad_disk_size :: "bytes \<Rightarrow> nat \<Rightarrow> nat" where
  "wad_disk_size data i =
     le_uint (py_slice data (wad_record data i + 4) (wad_record data i + 8))"

definition wad_full_size :: "bytes \<Rightarrow> nat \<Rightarrow> nat" where
  "wad_full_size data i =
     le_uint (py_slice data (wad_record data i + 8) (wad_record data i + 12))"

definition wad_type_byte :: "bytes \<Rightarrow> nat \<Rightarrow> byte" where
  "wad_type_byte data i = data ! (wad_record data i + 12)"

definition wad_compression_byte :: "bytes \<Rightarrow> nat \<Rightarrow> byte" where
  "wad_compression_byte data i = data ! (wad_record data i + 13)"

definition wad_name :: "bytes \<Rightarrow> nat \<Rightarrow> pystr" where
  "wad_name data i =
     lower (decode_ascii (split_nul
       (py_slice data (wad_record data i + 16) (wad_record data i + 32))))"

definition wad_payload :: "bytes \<Rightarrow> nat \<Rightarrow> bytes" where
  "wad_payload data i =
     py_slice data (wad_lump_offset data i) (wad_lump_offset data i + wad_disk_size data i)"

text \<open>What \<^const>\<open>read_wad\<close> stores for the \<open>i\<close>-th record.\<close>

definition wad_lump :: "bytes \<Rightarrow> nat \<Rightarrow> int \<times> bytes" where
  "wad_lump data i = (uint (wad_type_byte data i), wad_payload data i)"

text \<open>The magic, the header of 12 bytes, and every directory record of 32 bytes in the buffer.\<close>

definition wf_wad :: "bytes \<Rightarrow> bool" where
  "wf_wad data \<longleftrightarrow>
     py_slice data 0 4 = bytes_of ''WAD2'' \<and> 12 \<le> length data \<and>
     (\<forall>i<wad_num_lumps data. wad_record data i + 32 \<le> length data)"

subsection \<open>The bitmap record\<close>

definition qpic_width :: "bytes \<Rightarrow> nat" where
  "qpic_width data = le_uint (py_slice data 0 4)"

definition qpic_height :: "bytes \<Rightarrow> nat" where
  "qpic_height data = le_uint (py_slice data 4 8)"

subsection \<open>What the loop of \<^const>\<open>main\<close> does with one record\<close>

datatype outcome = NotQpic | Fail error | Written image bytes

definition lump_outcome ::
  "(image \<Rightarrow> error + bytes) \<Rightarrow> rgba list \<Rightarrow> pystr \<times> (int \<times> bytes) \<Rightarrow> outcome" where
  "lump_outcome save palette item =
     (case item of (name, (lump_type, data)) \<Rightarrow>
        if lump_type \<noteq> TYP_QPIC then NotQpic
        else case qpic_to_image data palette of
               Inl e \<Rightarrow> Fail e
             | Inr img \<Rightarrow> (case save img of Inl e \<Rightarrow> Fail e | Inr png \<Rightarrow> Written img png))"

definition written_file ::
  "(image \<Rightarrow> error + bytes) \<Rightarrow> rgba list \<Rightarrow> pystr \<times> (int \<times> bytes) \<Rightarrow> (pystr \<times> bytes) list" where
  "written_file save palette item =
     (case lump_outcome save palette item of
        Written img png \<Rightarrow> [(out_path (fst item), png)]
      | _ \<Rightarrow> [])"

definition printed_line ::
  "(image \<Rightarrow> error + bytes) \<Rightarrow> rgba list \<Rightarrow> pystr \<times> (int \<times> bytes) \<Rightarrow> line list" where
  "printed_line save palette item =
     (case lump_outcome save palette item of
        NotQpic \<Rightarrow> []
      | Fail e \<Rightarrow> [Failed (fst item) e]
      | Written img png \<Rightarrow>
          [Wrote (fst item) (img_width img) (img_height img) (out_path (fst item))])"

definition is_written ::
  "(image \<Rightarrow> error + bytes) \<Rightarrow> rgba list \<Rightarrow> pystr \<times> (int \<times> bytes) \<Rightarrow> bool" where
  "is_written save palette item = (written_file save palette item \<noteq> [])"

section \<open>Example inputs\<close>

text \<open>
  An archive of two directory records whose names differ only in case, the second payload
  overlapping the first.
\<close>

definition pak_example :: bytes where
  "pak_example =
     bytes_of ''PACK'' @ [12, 0, 0, 0, 128, 0, 0, 0] @
     bytes_of ''Ab'' @ replicate 54 0 @ [0, 0, 0, 0, 4, 0, 0, 0] @
     bytes_of ''aB'' @ replicate 54 0 @ [2, 0, 0, 0, 3, 0, 0, 0]"

text \<open>An archive whose directory size is 65: one record and one byte more.\<close>

definition pak_odd :: bytes where
  "pak_odd =
     bytes_of ''PACK'' @ [12, 0, 0, 0, 65, 0, 0, 0] @
     bytes_of ''a'' @ replicate 55 0 @ [0, 0, 0, 0, 4, 0, 0, 0] @ [7]"

text \<open>A colour table with red at index 0 and the transparent entry at index 255.\<close>

definition palette_example :: "rgba list" where
  "palette_example = (255, 0, 0, 255) # replicate 254 (1, 2, 3, 255) @ [(0, 0, 0, 0)]"

text \<open>A bitmap record of 2 by 1 pixels, and the same record with its last byte cut off.\<close>

definition qpic_example :: bytes where
  "qpic_example = [2, 0, 0, 0, 1, 0, 0, 0, 0, 255]"

definition qpic_short :: bytes where
  "qpic_short = [2, 0, 0, 0, 1, 0, 0, 0, 0]"

text \<open>A container with one record whose type byte and compression byte are both 0x80.\<close>

definition wad_high_type :: bytes where
  "wad_high_type =
     bytes_of ''WAD2'' @ [1, 0, 0, 0, 12, 0, 0, 0] @
     [0, 0, 0, 0, 0, 0, 0, 0, 0, 0, 0, 0, 0x80, 0x80, 0, 0] @ bytes_of ''x'' @ replicate 15 0"

text \<open>
  A container of 76 bytes with two records: the first declares 100 bytes from offset 70,
  the second 5 bytes from offset 1000.
\<close>

definition wad_short :: bytes where
  "wad_short =
     bytes_of ''WAD2'' @ [2, 0, 0, 0, 12, 0, 0, 0] @
     [70, 0, 0, 0, 100, 0, 0, 0, 100, 0, 0, 0, 0x42, 0, 0, 0] @ bytes_of ''a'' @ replicate 15 0 @
     [232, 3, 0, 0, 5, 0, 0, 0, 5, 0, 0, 0, 0x42, 0, 0, 0] @ bytes_of ''b'' @ replicate 15 0"

text \<open>
  A stand-in for the encoder: it refuses an empty raster, and the file of any other
  raster is its pixels, four bytes each.
\<close>

definition save_raw :: "image \<Rightarrow> error + bytes" where
  "save_raw img =
     (if img_width img = 0 \<or> img_height img = 0 then Inl SaveError
      else Inr (concat (map (\<lambda>(r, g, b, a). [r, g, b, a]) (img_data img))))"

text \<open>Three bitmap records and two records of other types.\<close>

definition lumps_example :: lumps where
  "lumps_example =
     [(str_of ''c'', (0x42, [1, 0, 0, 0, 1, 0, 0, 0, 255])),
      (str_of ''x'', (0x44, [])),
      (str_of ''a'', (0x42, qpic_example)),
      (str_of ''y'', (0x40, [1, 2, 3])),
      (str_of ''b'', (0x42, [1, 0, 0, 0, 1, 0, 0, 0, 0, 9]))]"

definition run_empty :: run where
  "run_empty = \<lparr>outdir = Map.empty, count = 0, skipped = 0, out = []\<rparr>"

text \<open>
  A whole archive of 768 bytes: the colour table is the file itself from its first byte,
  the nested container holds one bitmap record and one record of another type.
\<close>

definition wad_full :: bytes where
  "wad_full =
     bytes_of ''WAD2'' @ [2, 0, 0, 0, 12, 0, 0, 0] @
     [76, 0, 0, 0, 10, 0, 0, 0, 10, 0, 0, 0, 0x42, 0, 0, 0] @ bytes_of ''PIC'' @ replicate 13 0 @
     [0, 0, 0, 0, 0, 0, 0, 0, 0, 0, 0, 0, 0x44, 0, 0, 0] @ bytes_of ''other'' @ replicate 11 0 @
     qpic_example"

definition pak_full :: bytes where
  "pak_full =
     bytes_of ''PACK'' @ [12, 0, 0, 0, 128, 0, 0, 0] @
     bytes_of ''gfx/palette.lmp'' @ replicate 41 0 @ [0, 0, 0, 0, 0, 3, 0, 0] @
     bytes_of ''gfx.wad'' @ replicate 49 0 @ [140, 0, 0, 0, 86, 0, 0, 0] @
     wad_full @ replicate 542 0"

section \<open>Slices, reads and unpacking\<close>

lemma length_slice_full: "b \<le> length xs \<Longrightarrow> length (py_slice xs a b) = b - a"
  by (simp add: py_slice_def)

lemma length_slice_min: "length (py_slice xs a b) = min (b - a) (length xs - a)"
  by (simp add: py_slice_def)

lemma nth_py_slice:
  assumes "k < length (py_slice xs a b)"
  shows "py_slice xs a b ! k = xs ! (a + k)"
proof -
  from assms have "a \<le> length xs" and "k < b - a"
    by (auto simp: py_slice_def)
  then show ?thesis
    by (simp add: py_slice_def)
qed

lemma slice_slice:
  "c \<le> d \<Longrightarrow> a + d \<le> b \<Longrightarrow> py_slice (py_slice xs a b) c d = py_slice xs (a + c) (a + d)"
  by (simp add: py_slice_def drop_take min_def add.commute)

lemma slice3:
  assumes "i * 3 + 3 \<le> length data"
  shows "py_slice data (i * 3) (i * 3 + 3) =
         [data ! (i * 3), data ! (i * 3 + 1), data ! (i * 3 + 2)]"
proof -
  let ?n = "i * 3"
  have 1: "drop ?n data = data ! ?n # drop (Suc ?n) data"
    using assms by (simp add: Cons_nth_drop_Suc)
  have 2: "drop (Suc ?n) data = data ! Suc ?n # drop (Suc (Suc ?n)) data"
    using assms by (simp add: Cons_nth_drop_Suc)
  have 3: "drop (Suc (Suc ?n)) data = data ! Suc (Suc ?n) # drop (Suc (Suc (Suc ?n))) data"
    using assms by (simp add: Cons_nth_drop_Suc)
  have "take 3 (drop ?n data) = [data ! ?n, data ! Suc ?n, data ! Suc (Suc ?n)]"
    unfolding 1 2 3 by (simp add: numeral_3_eq_3)
  then show ?thesis
    by (simp add: py_slice_def)
qed

lemma f_read_slice:
  "f_read n f =
     (py_slice (content f) (pos f) (pos f + n),
      f\<lparr>pos := pos f + length (py_slice (content f) (pos f) (pos f + n))\<rparr>)"
  by (simp add: f_read_def py_slice_def Let_def)

lemma unpack_II_slice:
  "a + 8 \<le> length xs \<Longrightarrow>
   unpack_II (py_slice xs a (a + 8)) =
     Inr (le_uint (py_slice xs a (a + 4)), le_uint (py_slice xs (a + 4) (a + 8)))"
  by (simp add: unpack_II_def length_slice_full slice_slice)

lemma unpack_from_II_at:
  "off + 8 \<le> length data \<Longrightarrow>
   unpack_from_II data off =
     Inr (le_uint (py_slice data off (off + 4)), le_uint (py_slice data (off + 4) (off + 8)))"
  by (simp add: unpack_from_II_def unpack_II_slice)

lemma unpack_from_II_Inr: "unpack_from_II data off = Inr x \<Longrightarrow> off + 8 \<le> length data"
  by (simp add: unpack_from_II_def split: if_splits)

lemma unpack_from_IIIBb_Inr:
  "unpack_from_IIIBb data off = Inr x \<Longrightarrow> off + 14 \<le> length data"
  by (simp add: unpack_from_IIIBb_def split: if_splits)

section \<open>Dictionaries filled by a loop\<close>

lemma fold_update_distinct:
  "distinct (map fst (fold (\<lambda>j. AList.update (k j) (v j)) [0..<n] []))"
  by (induction n) (simp_all add: distinct_update)

lemma fold_update_keys:
  "fst ` set (fold (\<lambda>j. AList.update (k j) (v j)) [0..<n] []) = k ` {..<n}"
  by (induction n) (auto simp: dom_update lessThan_Suc)

lemma fold_update_last:
  "i < n \<Longrightarrow> (\<forall>j. i < j \<and> j < n \<longrightarrow> k j \<noteq> k i) \<Longrightarrow>
   map_of (fold (\<lambda>j. AList.update (k j) (v j)) [0..<n] []) (k i) = Some (v i)"
proof (induction n)
  case 0
  then show ?case by simp
next
  case (Suc n)
  show ?case
  proof (cases "i = n")
    case True
    then show ?thesis by (simp add: update_conv')
  next
    case False
    with Suc.prems have "i < n" and "k n \<noteq> k i" by auto
    moreover from Suc.prems have "\<forall>j. i < j \<and> j < n \<longrightarrow> k j \<noteq> k i" by auto
    ultimately show ?thesis using Suc.IH by (simp add: update_conv')
  qed
qed

lemma set_update_subset: "set (AList.update k v al) \<subseteq> insert (k, v) (set al)"
  by (induction al) auto

lemma fold_update_set:
  "set (fold (\<lambda>j. AList.update (k j) (v j)) [0..<n] []) \<subseteq> (\<lambda>j. (k j, v j)) ` {..<n}"
proof (induction n)
  case 0
  then show ?case by simp
next
  case (Suc n)
  have "set (fold (\<lambda>j. AList.update (k j) (v j)) [0..<Suc n] []) \<subseteq>
        insert (k n, v n) (set (fold (\<lambda>j. AList.update (k j) (v j)) [0..<n] []))"
    using set_update_subset by simp
  with Suc show ?case by (auto simp: lessThan_Suc)
qed

section \<open>The outer archive reader\<close>

lemma read_pak_loop_step:
  assumes "content f = pak" "pos f = pak_record pak i" "pak_record pak i + 64 \<le> length pak"
  shows "read_pak_loop (Suc n) f entries =
         read_pak_loop n (f\<lparr>pos := pak_record pak (Suc i)\<rparr>)
           (AList.update (pak_name pak i) (pak_payload pak i) entries)"
proof -
  let ?r = "pak_record pak i"
  have r1: "f_read 56 f = (py_slice pak ?r (?r + 56), f\<lparr>pos := ?r + 56\<rparr>)"
    using assms by (simp add: f_read_slice length_slice_full)
  have r2: "f_read 8 (f\<lparr>pos := ?r + 56\<rparr>) =
            (py_slice pak (?r + 56) (?r + 64), f\<lparr>pos := ?r + 64\<rparr>)"
    using assms by (simp add: f_read_slice length_slice_full add.commute)
  have u: "unpack_II (py_slice pak (?r + 56) (?r + 64)) = Inr (pak_offset pak i, pak_size pak i)"
    using assms(3) unpack_II_slice [of "?r + 56" pak]
    by (simp add: pak_offset_def pak_size_def add.assoc)
  have r3: "f_read (pak_size pak i) (f_seek (pak_offset pak i) (f\<lparr>pos := ?r + 64\<rparr>)) =
            (pak_payload pak i,
             f\<lparr>pos := pak_offset pak i + length (pak_payload pak i)\<rparr>)"
    using assms(1) by (simp add: f_read_slice f_seek_def pak_payload_def)
  have s: "pak_record pak (Suc i) = ?r + 64"
    by (simp add: pak_record_def)
  show ?thesis
    by (simp add: r1 r2 u r3 s f_tell_def pak_name_def) (simp add: f_seek_def)
qed

lemma read_pak_loop_fold:
  assumes "content f = pak" "pos f = pak_record pak i"
    "\<forall>j. i \<le> j \<and> j < i + n \<longrightarrow> pak_record pak j + 64 \<le> length pak"
  shows "read_pak_loop n f entries =
         Inr (fold (\<lambda>j. AList.update (pak_name pak j) (pak_payload pak j)) [i..<i + n] entries)"
  using assms
proof (induction n arbitrary: f i entries)
  case 0
  then show ?case by simp
next
  case (Suc n)
  have le: "pak_record pak i + 64 \<le> length pak"
    using Suc.prems(3) by simp
  have e: "[i..<i + Suc n] = i # [Suc i..<Suc i + n]"
    by (simp add: upt_conv_Cons del: upt_Suc)
  have "read_pak_loop (Suc n) f entries =
        read_pak_loop n (f\<lparr>pos := pak_record pak (Suc i)\<rparr>)
          (AList.update (pak_name pak i) (pak_payload pak i) entries)"
    using Suc.prems(1,2) le by (rule read_pak_loop_step)
  also have "\<dots> = Inr (fold (\<lambda>j. AList.update (pak_name pak j) (pak_payload pak j))
        [Suc i..<Suc i + n] (AList.update (pak_name pak i) (pak_payload pak i) entries))"
    using Suc.prems by (intro Suc.IH) simp_all
  finally show ?case
    unfolding e by (simp del: read_pak_loop.simps upt_Suc)
qed

lemma read_pak_loop_first:
  assumes "read_pak_loop (Suc n) f entries = Inr r"
  shows "pos f + 64 \<le> length (content f)"
proof -
  let ?p1 = "pos f + length (py_slice (content f) (pos f) (pos f + 56))"
  from assms have "length (py_slice (content f) ?p1 (?p1 + 8)) = 8"
    by (auto simp: f_read_slice unpack_II_def split: if_splits sum.splits)
  then show ?thesis
    by (auto simp: length_slice_min min_def split: if_splits)
qed

lemma read_pak_loop_Inr:
  assumes "read_pak_loop n f entries = Inr r" "content f = pak" "pos f = pak_record pak i"
  shows "\<forall>j. i \<le> j \<and> j < i + n \<longrightarrow> pak_record pak j + 64 \<le> length pak"
  using assms
proof (induction n arbitrary: f i entries)
  case 0
  then show ?case by simp
next
  case (Suc n)
  have le: "pak_record pak i + 64 \<le> length pak"
    using read_pak_loop_first [OF Suc.prems(1)] Suc.prems(2,3) by simp
  have step: "read_pak_loop n (f\<lparr>pos := pak_record pak (Suc i)\<rparr>)
          (AList.update (pak_name pak i) (pak_payload pak i) entries) = Inr r"
    using read_pak_loop_step [OF Suc.prems(2,3) le, of n entries] Suc.prems(1) by simp
  have "\<forall>j. Suc i \<le> j \<and> j < Suc i + n \<longrightarrow> pak_record pak j + 64 \<le> length pak"
    by (rule Suc.IH [OF step]) (simp_all add: Suc.prems(2))
  with le show ?case
    by (metis Suc_leI add_Suc add_Suc_right le_neq_implies_less)
qed

lemma read_pak_header:
  assumes "py_slice pak 0 4 = bytes_of ''PACK''" "12 \<le> length pak"
  shows "read_pak pak =
         read_pak_loop (pak_num_entries pak) \<lparr>content = pak, pos = pak_dir_offset pak\<rparr> []"
proof -
  have "length (bytes_of ''PACK'') = 4"
    by (simp add: bytes_of_def)
  then have m: "f_read 4 (f_open pak) = (bytes_of ''PACK'', \<lparr>content = pak, pos = 4\<rparr>)"
    using assms by (simp add: f_read_slice f_open_def)
  have h: "f_read 8 \<lparr>content = pak, pos = 4\<rparr> =
           (py_slice pak 4 12, \<lparr>content = pak, pos = 12\<rparr>)"
    using assms by (simp add: f_read_slice length_slice_full)
  have u: "unpack_II (py_slice pak 4 12) = Inr (pak_dir_offset pak, pak_dir_size pak)"
    using assms unpack_II_slice [of 4 pak]
    by (simp add: pak_dir_offset_def pak_dir_size_def)
  show ?thesis
    by (simp add: read_pak_def m h u f_seek_def pak_num_entries_def)
qed

lemma read_pak_fold:
  assumes "wf_pak pak"
  shows "read_pak pak =
         Inr (fold (\<lambda>j. AList.update (pak_name pak j) (pak_payload pak j))
                [0..<pak_num_entries pak] [])"
proof -
  have "read_pak_loop (pak_num_entries pak) \<lparr>content = pak, pos = pak_dir_offset pak\<rparr> [] =
        Inr (fold (\<lambda>j. AList.update (pak_name pak j) (pak_payload pak j))
               [0..<0 + pak_num_entries pak] [])"
    using assms by (intro read_pak_loop_fold) (simp_all add: wf_pak_def pak_record_def)
  then show ?thesis
    using assms by (simp add: read_pak_header wf_pak_def)
qed

lemma read_pak_loop_not_ValueError: "read_pak_loop n f entries \<noteq> Inl ValueError"
  by (induction n arbitrary: f entries)
    (auto simp: unpack_II_def Let_def split: prod.splits sum.splits if_splits)

lemma read_pak_ValueError:
  "read_pak pak = Inl ValueError \<longleftrightarrow> py_slice pak 0 4 \<noteq> bytes_of ''PACK''"
  using read_pak_loop_not_ValueError
  by (auto simp: read_pak_def f_read_slice f_open_def unpack_II_def
      split: prod.splits sum.splits if_splits)

lemma read_pak_Inr:
  assumes "read_pak pak = Inr entries"
  shows "wf_pak pak"
proof -
  from assms have m: "py_slice pak 0 4 = bytes_of ''PACK''"
    by (auto simp: read_pak_def f_read_slice f_open_def split: if_splits)
  have "length (bytes_of ''PACK'') = 4"
    by (simp add: bytes_of_def)
  with assms m have "length (py_slice pak 4 12) = 8"
    by (auto simp: read_pak_def f_read_slice f_open_def unpack_II_def
        split: if_splits sum.splits)
  then have l: "12 \<le> length pak"
    by (auto simp: length_slice_min min_def split: if_splits)
  with assms m have
    "read_pak_loop (pak_num_entries pak) \<lparr>content = pak, pos = pak_dir_offset pak\<rparr> [] =
     Inr entries"
    by (simp add: read_pak_header)
  then have "\<forall>j. 0 \<le> j \<and> j < 0 + pak_num_entries pak \<longrightarrow> pak_record pak j + 64 \<le> length pak"
    by (rule read_pak_loop_Inr) (simp_all add: pak_record_def)
  with m l show ?thesis
    by (simp add: wf_pak_def)
qed

section \<open>The colour table loader\<close>

lemma read_palette_loop_map:
  "\<forall>i \<in> set is. i * 3 + 3 \<le> length data \<Longrightarrow>
   read_palette_loop data is acc = Inr (acc @ map (palette_entry data) is)"
  by (induction "is" arbitrary: acc) (simp_all add: slice3 palette_entry_def)

lemma read_palette_ok:
  "768 \<le> length data \<Longrightarrow> read_palette data = Inr (map (palette_entry data) [0..<256])"
  by (simp add: read_palette_def read_palette_loop_map)

section \<open>The nested container reader\<close>

lemma unpack_from_IIIBb_record:
  "wad_record data i + 14 \<le> length data \<Longrightarrow>
   unpack_from_IIIBb data (wad_record data i) =
     Inr (wad_lump_offset data i, wad_disk_size data i, wad_full_size data i,
          uint (wad_type_byte data i), sint (wad_compression_byte data i))"
  by (simp add: unpack_from_IIIBb_def wad_lump_offset_def wad_disk_size_def wad_full_size_def
      wad_type_byte_def wad_compression_byte_def)

lemma read_wad_loop_fold:
  "\<forall>i\<in>set is. wad_record data i + 14 \<le> length data \<Longrightarrow>
   read_wad_loop data (wad_dir_offset data) is lumps =
     Inr (fold (\<lambda>i. AList.update (wad_name data i) (wad_lump data i)) is lumps)"
proof (induction "is" arbitrary: lumps)
  case Nil
  then show ?case by simp
next
  case (Cons i "is")
  then have u: "unpack_from_IIIBb data (wad_dir_offset data + i * 32) =
     Inr (wad_lump_offset data i, wad_disk_size data i, wad_full_size data i,
          uint (wad_type_byte data i), sint (wad_compression_byte data i))"
    using unpack_from_IIIBb_record [of data i] by (simp add: wad_record_def)
  have n: "lower (decode_ascii (split_nul
        (py_slice data (wad_dir_offset data + i * 32 + 16) (wad_dir_offset data + i * 32 + 32)))) =
      wad_name data i"
    by (simp add: wad_name_def wad_record_def)
  from Cons show ?case
    by (simp add: u n Let_def wad_lump_def wad_payload_def)
qed

lemma read_wad_loop_Inr:
  "read_wad_loop data d is lumps = Inr r \<Longrightarrow> \<forall>i\<in>set is. d + i * 32 + 14 \<le> length data"
proof (induction "is" arbitrary: lumps)
  case Nil
  then show ?case by simp
next
  case (Cons i "is")
  from Cons.prems obtain x where x: "unpack_from_IIIBb data (d + i * 32) = Inr x"
    by (auto simp: Let_def split: sum.splits)
  then have "d + i * 32 + 14 \<le> length data"
    by (rule unpack_from_IIIBb_Inr)
  moreover from Cons.prems x obtain lumps' where "read_wad_loop data d is lumps' = Inr r"
    by (cases x) (auto simp: Let_def)
  then have "\<forall>i\<in>set is. d + i * 32 + 14 \<le> length data"
    by (rule Cons.IH)
  ultimately show ?case by simp
qed

lemma read_wad_fold:
  assumes "py_slice data 0 4 = bytes_of ''WAD2''" "12 \<le> length data"
    "\<forall>i<wad_num_lumps data. wad_record data i + 14 \<le> length data"
  shows "read_wad data =
     Inr (fold (\<lambda>i. AList.update (wad_name data i) (wad_lump data i))
            [0..<wad_num_lumps data] [])"
proof -
  have "unpack_from_II data 4 = Inr (wad_num_lumps data, wad_dir_offset data)"
    using assms(2) unpack_from_II_at [of 4 data]
    by (simp add: wad_num_lumps_def wad_dir_offset_def)
  moreover have "read_wad_loop data (wad_dir_offset data) [0..<wad_num_lumps data] [] =
     Inr (fold (\<lambda>i. AList.update (wad_name data i) (wad_lump data i))
            [0..<wad_num_lumps data] [])"
    using assms(3) by (intro read_wad_loop_fold) simp
  ultimately show ?thesis
    using assms(1) by (simp add: read_wad_def)
qed

lemma read_wad_wf:
  assumes "wf_wad data"
  shows "read_wad data =
     Inr (fold (\<lambda>i. AList.update (wad_name data i) (wad_lump data i))
            [0..<wad_num_lumps data] [])"
proof -
  from assms have "\<forall>i<wad_num_lumps data. wad_record data i + 14 \<le> length data"
    by (auto simp: wf_wad_def)
  with assms show ?thesis
    by (intro read_wad_fold) (simp_all add: wf_wad_def)
qed

lemma read_wad_Inr:
  assumes "read_wad data = Inr lumps"
  shows "py_slice data 0 4 = bytes_of ''WAD2'' \<and> 12 \<le> length data \<and>
         (\<forall>i<wad_num_lumps data. wad_record data i + 14 \<le> length data)"
proof -
  from assms have m: "py_slice data 0 4 = bytes_of ''WAD2''"
    by (auto simp: read_wad_def Let_def split: if_splits)
  from assms m obtain x where x: "unpack_from_II data 4 = Inr x"
    by (auto simp: read_wad_def Let_def split: sum.splits)
  then have l: "12 \<le> length data"
    using unpack_from_II_Inr [of data 4 x] by simp
  then have "x = (wad_num_lumps data, wad_dir_offset data)"
    using x unpack_from_II_at [of 4 data] by (simp add: wad_num_lumps_def wad_dir_offset_def)
  with assms m x have
    "read_wad_loop data (wad_dir_offset data) [0..<wad_num_lumps data] [] = Inr lumps"
    by (simp add: read_wad_def)
  then have "\<forall>i\<in>set [0..<wad_num_lumps data]. wad_dir_offset data + i * 32 + 14 \<le> length data"
    by (rule read_wad_loop_Inr)
  with m l show ?thesis
    by (simp add: wad_record_def)
qed

section \<open>The bitmap decoder\<close>

lemma unpack_from_II_0:
  "8 \<le> length data \<Longrightarrow> unpack_from_II data 0 = Inr (qpic_width data, qpic_height data)"
  using unpack_from_II_at [of 0 data] by (simp add: qpic_width_def qpic_height_def)

lemma palette_lookup_256:
  "length palette = 256 \<Longrightarrow> palette_lookup palette b = Inr (palette ! unat b)"
  using unsigned_less [of b, where ?'a = nat] by (simp add: palette_lookup_def)

lemma lookup_all_256:
  "length palette = 256 \<Longrightarrow> lookup_all palette bs = Inr (map (\<lambda>b. palette ! unat b) bs)"
  by (induction bs) (simp_all add: palette_lookup_256)

lemma lookup_all_not_ValueError: "lookup_all palette bs \<noteq> Inl ValueError"
  by (induction bs) (auto simp: palette_lookup_def split: sum.splits)

lemma qpic_to_image_ok:
  assumes "8 \<le> length data" "qpic_width data * qpic_height data \<le> length data - 8"
    "length palette = 256"
  shows "qpic_to_image data palette =
     Inr \<lparr>img_width = qpic_width data, img_height = qpic_height data,
          img_data = map (\<lambda>b. palette ! unat b)
            (take (qpic_width data * qpic_height data) (drop 8 data))\<rparr>"
  using assms by (simp add: qpic_to_image_def unpack_from_II_0 py_slice_def lookup_all_256)

lemma qpic_to_image_short:
  assumes "8 \<le> length data" "length data - 8 < qpic_width data * qpic_height data"
  shows "qpic_to_image data palette = Inl ValueError"
  using assms by (simp add: qpic_to_image_def unpack_from_II_0 py_slice_def)

lemma qpic_to_image_ValueError:
  assumes "8 \<le> length data" "qpic_to_image data palette = Inl ValueError"
  shows "length data - 8 < qpic_width data * qpic_height data"
proof (rule ccontr)
  assume "\<not> length data - 8 < qpic_width data * qpic_height data"
  then have "qpic_to_image data palette \<noteq> Inl ValueError"
    using assms(1) lookup_all_not_ValueError [of palette]
    by (auto simp: qpic_to_image_def unpack_from_II_0 py_slice_def split: sum.splits)
  with assms(2) show False by simp
qed

lemma qpic_to_image_not_IndexError:
  assumes "length palette = 256"
  shows "qpic_to_image data palette \<noteq> Inl IndexError"
  using assms
  by (auto simp: qpic_to_image_def unpack_from_II_def unpack_II_def lookup_all_256 Let_def
      split: sum.splits if_splits)

section \<open>The loop over the records\<close>

lemma convert_lump_outcome:
  "convert_lump save palette item s =
     s\<lparr>outdir := outdir s ++ map_of (written_file save palette item),
       count := count s + (if is_written save palette item then 1 else 0),
       skipped := skipped s + (if is_written save palette item then 0 else 1),
       out := out s @ printed_line save palette item\<rparr>"
  by (cases item)
    (simp add: convert_lump_def lump_outcome_def written_file_def printed_line_def is_written_def
      split: sum.splits)

lemma rev_written_file:
  "rev (written_file save palette item) = written_file save palette item"
  by (simp add: written_file_def split: outcome.splits)

lemma convert_loop_outcome:
  "convert_loop save palette items s =
     s\<lparr>outdir := outdir s ++ map_of (rev (concat (map (written_file save palette) items))),
       count := count s + length (filter (is_written save palette) items),
       skipped := skipped s + length (filter (\<lambda>item. \<not> is_written save palette item) items),
       out := out s @ concat (map (printed_line save palette) items)\<rparr>"
proof (induction items arbitrary: s)
  case Nil
  show ?case by simp
next
  case (Cons item items)
  show ?case
    by (simp add: Cons convert_lump_outcome rev_written_file)
qed

lemma insort_split: "\<exists>ys zs. insort x xs = ys @ x # zs \<and> xs = ys @ zs"
proof (induction xs)
  case Nil
  show ?case by simp
next
  case (Cons a xs)
  show ?case
  proof (cases "x \<le> a")
    case True
    then have "insort x (a # xs) = [] @ x # a # xs \<and> a # xs = [] @ a # xs" by simp
    then show ?thesis by blast
  next
    case False
    from Cons obtain ys zs where "insort x xs = ys @ x # zs" "xs = ys @ zs" by blast
    with False have "insort x (a # xs) = (a # ys) @ x # zs \<and> a # xs = (a # ys) @ zs" by simp
    then show ?thesis by blast
  qed
qed

lemma length_filter_sort:
  "length (filter P (sort xs)) = length (filter P xs)"
proof (induction xs)
  case Nil
  show ?case by simp
next
  case (Cons x xs)
  obtain ys zs where "insort x (sort xs) = ys @ x # zs" and "sort xs = ys @ zs"
    using insort_split by blast
  then have "length (filter P (insort x (sort xs))) = length (filter P (x # sort xs))"
    by simp
  with Cons show ?case
    by (simp add: sort_key_simps)
qed

lemma sorted_names: "sorted (map fst (sort (lumps :: lumps)))"
proof -
  have "sorted_wrt (\<le>) (sort lumps)"
    by simp
  then have "sorted_wrt (\<lambda>x y. fst x \<le> fst y) (sort lumps)"
    by (rule sorted_wrt_mono_rel [rotated]) (auto simp: less_eq_prod_def)
  then show ?thesis
    by (simp add: sorted_map)
qed

lemma convert_lumps_outcome:
  "convert_lumps save palette lumps s =
     s\<lparr>outdir := outdir s ++ map_of (rev (concat (map (written_file save palette) (sort lumps)))),
       count := length (filter (is_written save palette) lumps),
       skipped := length (filter (\<lambda>item. \<not> is_written save palette item) lumps),
       out := out s @ concat (map (printed_line save palette) (sort lumps))\<rparr>"
  by (simp add: convert_lumps_def convert_loop_outcome length_filter_sort)

lemma written_files_skip:
  assumes "\<not> is_written save palette item"
  shows "concat (map (written_file save palette) (sort (item # lumps))) =
         concat (map (written_file save palette) (sort lumps))"
proof -
  obtain ys zs where i: "insort item (sort lumps) = ys @ item # zs" and s: "sort lumps = ys @ zs"
    using insort_split by blast
  have w: "written_file save palette item = []"
    using assms by (simp add: is_written_def)
  have "sort (item # lumps) = ys @ item # zs"
    using i by (simp add: sort_key_simps)
  then show ?thesis
    by (simp add: s w)
qed

lemma is_written_iff:
  "is_written save palette (name, (lump_type, data)) \<longleftrightarrow>
     lump_type = TYP_QPIC \<and>
     (\<exists>img png. qpic_to_image data palette = Inr img \<and> save img = Inr png)"
  by (auto simp: is_written_def written_file_def lump_outcome_def split: sum.splits)

section \<open>The whole run\<close>

lemma map_add_twice: "m ++ w ++ w = m ++ w"
  by (rule ext) (simp add: map_add_def split: option.splits)

lemma main_Inr:
  assumes "main save pak dir = Inr r"
  obtains pak_entries palette_data palette wad_data lumps where
    "read_pak pak = Inr pak_entries"
    "map_of pak_entries (str_of ''gfx/palette.lmp'') = Some palette_data"
    "read_palette palette_data = Inr palette"
    "map_of pak_entries (str_of ''gfx.wad'') = Some wad_data"
    "read_wad wad_data = Inr lumps"
  using assms by (auto simp: main_def split: sum.splits option.splits)

lemma main_run:
  assumes "read_pak pak = Inr pak_entries"
    "map_of pak_entries (str_of ''gfx/palette.lmp'') = Some palette_data"
    "read_palette palette_data = Inr palette"
    "map_of pak_entries (str_of ''gfx.wad'') = Some wad_data"
    "read_wad wad_data = Inr lumps"
  shows "main save pak dir =
    Inr \<lparr>outdir = dir ++ map_of (rev (concat (map (written_file save palette) (sort lumps)))),
         count = length (filter (is_written save palette) lumps),
         skipped = length (filter (\<lambda>item. \<not> is_written save palette item) lumps),
         out = [Reading, PakEntries (length pak_entries), PaletteLoaded, WadLumps (length lumps)] @
               concat (map (printed_line save palette) (sort lumps)) @
               [Done (length (filter (is_written save palette) lumps))
                     (length (filter (\<lambda>item. \<not> is_written save palette item) lumps))]\<rparr>"
  using assms by (simp add: main_def convert_lumps_outcome Let_def)

section \<open>The claims about the colour table and the bitmap decoder\<close>

text \<open>
  Claim C7. On an input of at least 768 bytes the colour table loader returns exactly 256
  entries, entry \<open>i\<close> being \<open>(data[3i], data[3i+1], data[3i+2], a)\<close> with \<open>a = 0\<close> for
  \<open>i = 255\<close> and \<open>a = 255\<close> for every other \<open>i\<close>; on fewer than 768 bytes it fails with
  the format error, which the script raises as ValueError.
\<close>

theorem read_palette_entries:
  "(768 \<le> length data \<longrightarrow>
      (\<exists>palette. read_palette data = Inr palette \<and> length palette = 256 \<and>
         (\<forall>i<256. palette ! i =
            (data ! (3 * i), data ! (3 * i + 1), data ! (3 * i + 2),
             if i = 255 then 0 else 255)))) \<and>
   (length data < 768 \<longrightarrow> read_palette data = Inl ValueError)"
proof (intro conjI impI)
  assume "768 \<le> length data"
  then have "read_palette data = Inr (map (palette_entry data) [0..<256])"
    by (rule read_palette_ok)
  then show "\<exists>palette. read_palette data = Inr palette \<and> length palette = 256 \<and>
         (\<forall>i<256. palette ! i =
            (data ! (3 * i), data ! (3 * i + 1), data ! (3 * i + 2),
             if i = 255 then 0 else 255))"
    by (simp add: palette_entry_def mult.commute)
next
  assume "length data < 768"
  then show "read_palette data = Inl ValueError"
    by (simp add: read_palette_def)
qed

theorem read_palette_entries_witness:
  "(\<exists>palette. read_palette (replicate 765 7 @ [1, 2, 3]) = Inr palette \<and>
      length palette = 256 \<and> palette ! 0 = (7, 7, 7, 255) \<and> palette ! 255 = (1, 2, 3, 0)) \<and>
   read_palette (replicate 767 7) = Inl ValueError"
proof -
  let ?data = "replicate 765 7 @ [1, 2, 3 :: byte]"
  have l: "768 \<le> length ?data"
    by simp
  from read_palette_entries [of ?data] l obtain palette where
    p: "read_palette ?data = Inr palette" "length palette = 256"
    "\<forall>i<256. palette ! i =
        (?data ! (3 * i), ?data ! (3 * i + 1), ?data ! (3 * i + 2), if i = 255 then 0 else 255)"
    by blast
  from p(3) have "palette ! 0 = (7, 7, 7, 255)"
    by (simp add: nth_append)
  moreover from p(3) have "palette ! 255 = (1, 2, 3, 0)"
    by (simp add: nth_append)
  moreover have "read_palette (replicate 767 7) = Inl ValueError"
    using read_palette_entries [of "replicate 767 7"] by simp
  ultimately show ?thesis
    using p(1,2) by blast
qed

text \<open>
  Claim C8. With a colour table of 256 entries the lookup of the bitmap decoder is in
  bounds for every byte: no lookup raises IndexError, whatever the pixel data, and so the
  decoder never fails with that error.
\<close>

theorem palette_lookup_in_bounds:
  assumes "length palette = 256"
  shows "palette_lookup palette b = Inr (palette ! unat b) \<and>
         unat b < length palette \<and>
         lookup_all palette pixels = Inr (map (\<lambda>b. palette ! unat b) pixels) \<and>
         qpic_to_image data palette \<noteq> Inl IndexError"
proof -
  have "unat b < 256"
    using unsigned_less [of b, where ?'a = nat] by simp
  with assms show ?thesis
    by (simp add: palette_lookup_256 lookup_all_256 qpic_to_image_not_IndexError)
qed

theorem palette_lookup_in_bounds_witness:
  "length palette_example = 256 \<and>
   palette_lookup palette_example 255 = Inr (0, 0, 0, 0) \<and>
   lookup_all palette_example [0, 7, 255] = Inr [(255, 0, 0, 255), (1, 2, 3, 255), (0, 0, 0, 0)] \<and>
   qpic_to_image qpic_example palette_example \<noteq> Inl IndexError"
proof -
  have l: "length palette_example = 256"
    by (simp add: palette_example_def)
  have n: "palette_example ! unat (255 :: byte) = (0, 0, 0, 0)"
    "palette_example ! unat (0 :: byte) = (255, 0, 0, 255)"
    "palette_example ! unat (7 :: byte) = (1, 2, 3, 255)"
    by (simp_all add: palette_example_def nth_append nth_Cons')
  show ?thesis
    using palette_lookup_in_bounds [OF l, of 255 "[0, 7, 255]" qpic_example] l n by simp
qed





section \<open>The claims about the outer archive reader\<close>

text \<open>
  Claim C1. For a well-formed outer archive (the magic, the header of 12 bytes, and
  \<open>directory_size div 64\<close> records of 64 bytes in the file) the reader returns a mapping
  with exactly one entry for each distinct name among the records, a name being the
  record's first 56 bytes cut at the first NUL, decoded as ASCII with replacement and
  lowercased. The value of an entry is the payload of the last record of that name: the
  bytes of the file from the record's offset on, \<open>size\<close> of them when the file has them.
\<close>

theorem read_pak_mapping:
  assumes "wf_pak pak"
  shows "\<exists>entries. read_pak pak = Inr entries \<and>
           distinct (map fst entries) \<and>
           fst ` set entries = pak_name pak ` {..<pak_num_entries pak} \<and>
           length entries = card (pak_name pak ` {..<pak_num_entries pak}) \<and>
           (\<forall>i<pak_num_entries pak.
              (\<forall>j. i < j \<and> j < pak_num_entries pak \<longrightarrow> pak_name pak j \<noteq> pak_name pak i) \<longrightarrow>
              map_of entries (pak_name pak i) = Some (pak_payload pak i)) \<and>
           (\<forall>i<pak_num_entries pak.
              (\<forall>k<length (pak_payload pak i).
                 pak_payload pak i ! k = pak ! (pak_offset pak i + k)) \<and>
              (pak_offset pak i + pak_size pak i \<le> length pak \<longrightarrow>
                 length (pak_payload pak i) = pak_size pak i))"
proof -
  let ?entries = "fold (\<lambda>j. AList.update (pak_name pak j) (pak_payload pak j))
                    [0..<pak_num_entries pak] []"
  have "read_pak pak = Inr ?entries"
    using assms by (rule read_pak_fold)
  moreover have d: "distinct (map fst ?entries)"
    by (rule fold_update_distinct)
  moreover have k: "fst ` set ?entries = pak_name pak ` {..<pak_num_entries pak}"
    by (rule fold_update_keys)
  moreover have "length ?entries = card (pak_name pak ` {..<pak_num_entries pak})"
    using distinct_card [OF d] by (simp add: k)
  moreover have "\<forall>i<pak_num_entries pak.
      (\<forall>j. i < j \<and> j < pak_num_entries pak \<longrightarrow> pak_name pak j \<noteq> pak_name pak i) \<longrightarrow>
      map_of ?entries (pak_name pak i) = Some (pak_payload pak i)"
    using fold_update_last [of _ "pak_num_entries pak" "pak_name pak" "pak_payload pak"]
    by blast
  moreover have "\<forall>i<pak_num_entries pak.
      (\<forall>k<length (pak_payload pak i). pak_payload pak i ! k = pak ! (pak_offset pak i + k)) \<and>
      (pak_offset pak i + pak_size pak i \<le> length pak \<longrightarrow>
         length (pak_payload pak i) = pak_size pak i)"
    by (simp add: pak_payload_def nth_py_slice length_slice_full)
  ultimately show ?thesis by blast
qed

theorem read_pak_mapping_witness:
  "wf_pak pak_example \<and> pak_num_entries pak_example = 2 \<and>
   pak_name pak_example 0 = str_of ''ab'' \<and> pak_name pak_example 1 = str_of ''ab'' \<and>
   pak_payload pak_example 0 = bytes_of ''PACK'' \<and>
   (\<exists>entries. read_pak pak_example = Inr entries \<and> distinct (map fst entries) \<and>
      fst ` set entries = {str_of ''ab''} \<and>
      map_of entries (str_of ''ab'') = Some (bytes_of ''CK'' @ [12]))"
proof -
  have n: "pak_num_entries pak_example = 2" and d: "pak_dir_offset pak_example = 12"
    and l: "length pak_example = 140"
    and m: "py_slice pak_example 0 4 = bytes_of ''PACK''"
    by code_simp+
  have k: "pak_name pak_example 0 = str_of ''ab''" "pak_name pak_example 1 = str_of ''ab''"
    and v: "pak_payload pak_example 0 = bytes_of ''PACK''"
      "pak_payload pak_example 1 = bytes_of ''CK'' @ [12]"
    by code_simp+
  have wf: "wf_pak pak_example"
    by (auto simp: wf_pak_def n d l m pak_record_def less_Suc_eq numeral_2_eq_2)
  from read_pak_mapping [OF wf] obtain entries where e:
    "read_pak pak_example = Inr entries" "distinct (map fst entries)"
    "fst ` set entries = pak_name pak_example ` {..<pak_num_entries pak_example}"
    "\<forall>i<pak_num_entries pak_example.
       (\<forall>j. i < j \<and> j < pak_num_entries pak_example \<longrightarrow>
            pak_name pak_example j \<noteq> pak_name pak_example i) \<longrightarrow>
       map_of entries (pak_name pak_example i) = Some (pak_payload pak_example i)"
    by blast
  have two: "{..<2 :: nat} = {0, 1}"
    by auto
  have k1: "pak_name pak_example (Suc 0) = str_of ''ab''"
    and v1: "pak_payload pak_example (Suc 0) = bytes_of ''CK'' @ [12]"
    using k v by simp_all
  from e(3) have "fst ` set entries = {str_of ''ab''}"
    by (simp add: n two k k1)
  moreover have "map_of entries (pak_name pak_example (Suc 0)) =
      Some (pak_payload pak_example (Suc 0))"
  proof -
    have "\<forall>j. Suc 0 < j \<and> j < 2 \<longrightarrow>
        pak_name pak_example j \<noteq> pak_name pak_example (Suc 0)"
      by auto
    moreover have "Suc 0 < 2"
      by simp
    ultimately show ?thesis
      using e(4) [unfolded n] by blast
  qed
  ultimately show ?thesis
    using wf n k v k1 v1 e(1,2) by auto
qed

text \<open>
  Claim C6, as amended. The reader does not look at \<open>directory_size mod 64\<close>: it reads
  \<open>directory_size div 64\<close> records and leaves the remaining bytes of the directory alone.
  It succeeds exactly when the magic is right, the header of 12 bytes is complete and those
  records lie in the file; its result then has the names of exactly these records. The
  format error (ValueError) is raised for a wrong magic and for nothing else.
\<close>

theorem read_pak_directory_size:
  "((\<exists>entries. read_pak pak = Inr entries) \<longleftrightarrow> wf_pak pak) \<and>
   (read_pak pak = Inl ValueError \<longleftrightarrow> py_slice pak 0 4 \<noteq> bytes_of ''PACK'') \<and>
   (\<forall>entries. read_pak pak = Inr entries \<longrightarrow>
      fst ` set entries = pak_name pak ` {..<pak_dir_size pak div 64} \<and>
      length entries \<le> pak_dir_size pak div 64)"
proof (intro conjI allI impI)
  show "(\<exists>entries. read_pak pak = Inr entries) \<longleftrightarrow> wf_pak pak"
    using read_pak_Inr read_pak_fold by blast
next
  show "read_pak pak = Inl ValueError \<longleftrightarrow> py_slice pak 0 4 \<noteq> bytes_of ''PACK''"
    by (rule read_pak_ValueError)
next
  fix entries
  assume r: "read_pak pak = Inr entries"
  let ?n = "pak_dir_size pak div 64"
  from r have "wf_pak pak"
    by (rule read_pak_Inr)
  then have "read_pak pak =
      Inr (fold (\<lambda>j. AList.update (pak_name pak j) (pak_payload pak j)) [0..<?n] [])"
    using read_pak_fold [of pak] by (simp add: pak_num_entries_def)
  with r have e: "entries = fold (\<lambda>j. AList.update (pak_name pak j) (pak_payload pak j)) [0..<?n] []"
    by simp
  show k: "fst ` set entries = pak_name pak ` {..<?n}"
    unfolding e by (rule fold_update_keys)
  have "distinct (map fst entries)"
    unfolding e by (rule fold_update_distinct)
  then have "length entries = card (fst ` set entries)"
    using distinct_card [of "map fst entries"] by simp
  also have "\<dots> \<le> card {..<?n}"
    unfolding k by (rule card_image_le) simp
  finally show "length entries \<le> ?n"
    by simp
qed

theorem read_pak_directory_size_witness:
  "wf_pak pak_odd \<and> pak_dir_size pak_odd = 65 \<and>
   (\<exists>entries. read_pak pak_odd = Inr entries \<and>
      fst ` set entries = {str_of ''a''} \<and> length entries \<le> 1) \<and>
   read_pak (bytes_of ''WAD2'') = Inl ValueError"
proof -
  have s: "pak_dir_size pak_odd = 65" and k: "pak_name pak_odd 0 = str_of ''a''"
    and r: "read_pak pak_odd = Inr [(str_of ''a'', bytes_of ''PACK'')]"
    and m: "py_slice (bytes_of ''WAD2'') 0 4 \<noteq> bytes_of ''PACK''"
    by code_simp+
  from read_pak_directory_size [of pak_odd] r have "wf_pak pak_odd"
    by blast
  moreover from read_pak_directory_size [of pak_odd] r have
    "fst ` set [(str_of ''a'', bytes_of ''PACK'')] = pak_name pak_odd ` {..<pak_dir_size pak_odd div 64}"
    by blast
  moreover from read_pak_directory_size [of "bytes_of ''WAD2''"] m
  have "read_pak (bytes_of ''WAD2'') = Inl ValueError"
    by blast
  ultimately show ?thesis
    using s r by simp
qed

theorem read_pak_size_multiple_counterexample:
  "pak_dir_size pak_odd = 65 \<and> pak_dir_size pak_odd mod 64 = 1 \<and>
   read_pak pak_odd = Inr [(str_of ''a'', bytes_of ''PACK'')]"
  by code_simp

section \<open>The claims about the nested container reader\<close>

text \<open>
  Claim C5, as amended. The format string of the reader is \<^verbatim>\<open><IIIBb\<close>: the type of a
  record, the byte at offset 12, is read as an unsigned 8-bit integer, so every stored type
  lies between 0 and 255 and a type byte of 0x80 or more is never negative; only the
  compression byte at offset 13 is read as a signed 8-bit integer.
\<close>

theorem read_wad_type_unsigned:
  assumes "read_wad data = Inr lumps" "(name, (t, d)) \<in> set lumps"
  shows "\<exists>i<wad_num_lumps data.
           name = wad_name data i \<and> t = uint (wad_type_byte data i) \<and> 0 \<le> t \<and> t < 256 \<and>
           (\<exists>c. unpack_from_IIIBb data (wad_record data i) =
                  Inr (wad_lump_offset data i, wad_disk_size data i, wad_full_size data i, t, c) \<and>
                c = sint (wad_compression_byte data i) \<and> - 128 \<le> c \<and> c < 128)"
proof -
  from assms(1) have w: "py_slice data 0 4 = bytes_of ''WAD2''" "12 \<le> length data"
    "\<forall>i<wad_num_lumps data. wad_record data i + 14 \<le> length data"
    using read_wad_Inr by blast+
  then have "read_wad data =
     Inr (fold (\<lambda>i. AList.update (wad_name data i) (wad_lump data i))
            [0..<wad_num_lumps data] [])"
    by (rule read_wad_fold)
  with assms have "(name, (t, d)) \<in>
     set (fold (\<lambda>i. AList.update (wad_name data i) (wad_lump data i))
            [0..<wad_num_lumps data] [])"
    by simp
  then have "(name, (t, d)) \<in> (\<lambda>i. (wad_name data i, wad_lump data i)) ` {..<wad_num_lumps data}"
    using fold_update_set [of "wad_name data" "wad_lump data" "wad_num_lumps data"] by blast
  then obtain i where i: "i < wad_num_lumps data" "name = wad_name data i"
    "t = uint (wad_type_byte data i)"
    by (auto simp: wad_lump_def)
  have u: "unpack_from_IIIBb data (wad_record data i) =
      Inr (wad_lump_offset data i, wad_disk_size data i, wad_full_size data i,
           t, sint (wad_compression_byte data i))"
    using w(3) i(1,3) by (simp add: unpack_from_IIIBb_record)
  have t: "0 \<le> t" "t < 256"
    using uint_lt2p [of "wad_type_byte data i"] by (simp_all add: i(3))
  have c: "- 128 \<le> sint (wad_compression_byte data i)" "sint (wad_compression_byte data i) < 128"
    using sint_ge [of "wad_compression_byte data i"] sint_lt [of "wad_compression_byte data i"]
    by simp_all
  from i u t c show ?thesis
    by blast
qed

theorem read_wad_type_unsigned_witness:
  "read_wad wad_high_type = Inr [(str_of ''x'', (128, []))] \<and>
   (\<exists>i<wad_num_lumps wad_high_type.
      str_of ''x'' = wad_name wad_high_type i \<and>
      (128 :: int) = uint (wad_type_byte wad_high_type i) \<and>
      (\<exists>c. unpack_from_IIIBb wad_high_type (wad_record wad_high_type i) =
             Inr (wad_lump_offset wad_high_type i, wad_disk_size wad_high_type i,
                  wad_full_size wad_high_type i, 128, c) \<and>
           c = sint (wad_compression_byte wad_high_type i) \<and> - 128 \<le> c \<and> c < 128))"
proof -
  have r: "read_wad wad_high_type = Inr [(str_of ''x'', (128, []))]"
    by code_simp
  have "(str_of ''x'', (128 :: int, [] :: bytes)) \<in> set [(str_of ''x'', (128, []))]"
    by simp
  from read_wad_type_unsigned [OF r this] r show ?thesis
    by blast
qed

theorem read_wad_signed_type_counterexample:
  "wad_type_byte wad_high_type 0 = 0x80 \<and>
   sint (wad_type_byte wad_high_type 0) = - 128 \<and>
   sint (wad_compression_byte wad_high_type 0) = - 128 \<and>
   read_wad wad_high_type = Inr [(str_of ''x'', (128, []))]"
  by code_simp

text \<open>
  Claim C10. A payload reference that leaves the buffer never makes the nested container
  reader fail. For a buffer with the magic, the header of 12 bytes and every directory
  record of 32 bytes inside it, the reader succeeds whatever the lump offsets and sizes on
  disk are; the data stored for a record are the bytes of the buffer from its lump offset
  on, at most its size on disk and cut at the end of the buffer: fewer than the declared
  size, possibly none, when the reference reaches past the end. Whether the reader
  succeeds depends on the magic, the header and the first 14 bytes of each directory
  record only.
\<close>

theorem read_wad_payload_truncated:
  "(wf_wad data \<longrightarrow>
      (\<exists>lumps. read_wad data = Inr lumps \<and>
         fst ` set lumps = wad_name data ` {..<wad_num_lumps data} \<and>
         (\<forall>i<wad_num_lumps data.
            (\<forall>j. i < j \<and> j < wad_num_lumps data \<longrightarrow> wad_name data j \<noteq> wad_name data i) \<longrightarrow>
            map_of lumps (wad_name data i) =
              Some (uint (wad_type_byte data i), wad_payload data i)) \<and>
         (\<forall>i<wad_num_lumps data.
            length (wad_payload data i) =
              min (wad_disk_size data i) (length data - wad_lump_offset data i) \<and>
            (\<forall>k<length (wad_payload data i).
               wad_payload data i ! k = data ! (wad_lump_offset data i + k)) \<and>
            (length data < wad_lump_offset data i + wad_disk_size data i \<and>
             0 < wad_disk_size data i \<longrightarrow>
               length (wad_payload data i) < wad_disk_size data i)))) \<and>
   ((\<exists>lumps. read_wad data = Inr lumps) \<longleftrightarrow>
      py_slice data 0 4 = bytes_of ''WAD2'' \<and> 12 \<le> length data \<and>
      (\<forall>i<wad_num_lumps data. wad_record data i + 14 \<le> length data))"
proof (intro conjI impI)
  assume wf: "wf_wad data"
  let ?lumps = "fold (\<lambda>i. AList.update (wad_name data i) (wad_lump data i))
                  [0..<wad_num_lumps data] []"
  have "read_wad data = Inr ?lumps"
    using wf by (rule read_wad_wf)
  moreover have "fst ` set ?lumps = wad_name data ` {..<wad_num_lumps data}"
    by (rule fold_update_keys)
  moreover have "\<forall>i<wad_num_lumps data.
      (\<forall>j. i < j \<and> j < wad_num_lumps data \<longrightarrow> wad_name data j \<noteq> wad_name data i) \<longrightarrow>
      map_of ?lumps (wad_name data i) = Some (uint (wad_type_byte data i), wad_payload data i)"
    using fold_update_last [of _ "wad_num_lumps data" "wad_name data" "wad_lump data"]
    by (simp add: wad_lump_def)
  moreover have "\<forall>i<wad_num_lumps data.
      length (wad_payload data i) =
        min (wad_disk_size data i) (length data - wad_lump_offset data i) \<and>
      (\<forall>k<length (wad_payload data i).
         wad_payload data i ! k = data ! (wad_lump_offset data i + k)) \<and>
      (length data < wad_lump_offset data i + wad_disk_size data i \<and>
       0 < wad_disk_size data i \<longrightarrow>
         length (wad_payload data i) < wad_disk_size data i)"
    by (auto simp: wad_payload_def nth_py_slice length_slice_min)
  ultimately show "\<exists>lumps. read_wad data = Inr lumps \<and>
         fst ` set lumps = wad_name data ` {..<wad_num_lumps data} \<and>
         (\<forall>i<wad_num_lumps data.
            (\<forall>j. i < j \<and> j < wad_num_lumps data \<longrightarrow> wad_name data j \<noteq> wad_name data i) \<longrightarrow>
            map_of lumps (wad_name data i) =
              Some (uint (wad_type_byte data i), wad_payload data i)) \<and>
         (\<forall>i<wad_num_lumps data.
            length (wad_payload data i) =
              min (wad_disk_size data i) (length data - wad_lump_offset data i) \<and>
            (\<forall>k<length (wad_payload data i).
               wad_payload data i ! k = data ! (wad_lump_offset data i + k)) \<and>
            (length data < wad_lump_offset data i + wad_disk_size data i \<and>
             0 < wad_disk_size data i \<longrightarrow>
               length (wad_payload data i) < wad_disk_size data i))"
    by blast
next
  show "(\<exists>lumps. read_wad data = Inr lumps) \<longleftrightarrow>
      py_slice data 0 4 = bytes_of ''WAD2'' \<and> 12 \<le> length data \<and>
      (\<forall>i<wad_num_lumps data. wad_record data i + 14 \<le> length data)"
    using read_wad_Inr read_wad_fold by blast
qed

theorem read_wad_payload_truncated_witness:
  "wf_wad wad_short \<and> length wad_short = 76 \<and>
   wad_lump_offset wad_short 0 = 70 \<and> wad_disk_size wad_short 0 = 100 \<and>
   wad_lump_offset wad_short 1 = 1000 \<and> wad_disk_size wad_short 1 = 5 \<and>
   (\<exists>lumps. read_wad wad_short = Inr lumps \<and>
      map_of lumps (str_of ''a'') = Some (0x42, replicate 6 0) \<and>
      map_of lumps (str_of ''b'') = Some (0x42, []))"
proof -
  have n: "wad_num_lumps wad_short = 2" and d: "wad_dir_offset wad_short = 12"
    and l: "length wad_short = 76"
    and m: "py_slice wad_short 0 4 = bytes_of ''WAD2''"
    by code_simp+
  have f: "wad_lump_offset wad_short 0 = 70" "wad_disk_size wad_short 0 = 100"
    "wad_lump_offset wad_short 1 = 1000" "wad_disk_size wad_short 1 = 5"
    by code_simp+
  have k: "wad_name wad_short 0 = str_of ''a''" "wad_name wad_short (Suc 0) = str_of ''b''"
    and t: "uint (wad_type_byte wad_short 0) = 0x42" "uint (wad_type_byte wad_short (Suc 0)) = 0x42"
    and v: "wad_payload wad_short 0 = replicate 6 0" "wad_payload wad_short (Suc 0) = []"
    and ne: "str_of ''b'' \<noteq> str_of ''a''"
    by code_simp+
  have wf: "wf_wad wad_short"
    by (auto simp: wf_wad_def n d l m wad_record_def less_Suc_eq numeral_2_eq_2)
  from read_wad_payload_truncated [of wad_short] wf obtain lumps where e:
    "read_wad wad_short = Inr lumps"
    "\<forall>i<wad_num_lumps wad_short.
       (\<forall>j. i < j \<and> j < wad_num_lumps wad_short \<longrightarrow>
            wad_name wad_short j \<noteq> wad_name wad_short i) \<longrightarrow>
       map_of lumps (wad_name wad_short i) =
         Some (uint (wad_type_byte wad_short i), wad_payload wad_short i)"
    by blast
  have "map_of lumps (wad_name wad_short 0) =
      Some (uint (wad_type_byte wad_short 0), wad_payload wad_short 0)"
  proof -
    have "\<forall>j. 0 < j \<and> j < 2 \<longrightarrow> wad_name wad_short j \<noteq> wad_name wad_short 0"
      using k ne by (auto simp: less_Suc_eq numeral_2_eq_2)
    moreover have "(0 :: nat) < 2"
      by simp
    ultimately show ?thesis
      using e(2) [unfolded n] by blast
  qed
  moreover have "map_of lumps (wad_name wad_short (Suc 0)) =
      Some (uint (wad_type_byte wad_short (Suc 0)), wad_payload wad_short (Suc 0))"
  proof -
    have "\<forall>j. Suc 0 < j \<and> j < 2 \<longrightarrow> wad_name wad_short j \<noteq> wad_name wad_short (Suc 0)"
      by auto
    moreover have "Suc 0 < 2"
      by simp
    ultimately show ?thesis
      using e(2) [unfolded n] by blast
  qed
  ultimately show ?thesis
    using wf l f e(1) by (auto simp: k t v)
qed

section \<open>The claims about the run\<close>





end
